theory Spec2Isabelle
  imports Complex_Main
begin

section \<open>Health calculators of \<^verbatim>\<open>app.py\<close>\<close>

text \<open>
  The calculators of \<^verbatim>\<open>app.py\<close> are closed formulas over Python numbers;
  \<^verbatim>\<open>None\<close> is \<^const>\<open>None\<close> and an exception is a value of \<open>py_error\<close>. Two
  number models are used. Where a property concerns order, buckets or control flow, a
  Python \<^verbatim>\<open>float\<close> is a \<^typ>\<open>real\<close> and every arithmetic operation is exact.
  Where a property concerns the digits of a result (the BMI value, the ideal weight
  range), the operations are those of binary64: every result is rounded to the nearest
  float, a result beyond the largest float is an infinity, and the exceptions of
  \<^verbatim>\<open>**\<close> and \<^verbatim>\<open>/\<close> are branches. Arguments are finite floats; NaN is outside both
  models.
\<close>

subsection \<open>Python built-ins\<close>

text \<open>
  \<^verbatim>\<open>round(x, ndigits)\<close> on a float: the decimal with \<open>ndigits\<close> places nearest to the
  value of \<open>x\<close>, a tie going to the even last digit. (In binary64 the float nearest to
  that decimal is returned, see \<open>round_float\<close> below.)
\<close>

definition round_half_even :: "real \<Rightarrow> int" where
  "round_half_even y =
     (let f = \<lfloor>y\<rfloor>; d = y - of_int f
      in if d < 1/2 then f
         else if 1/2 < d then f + 1
         else if even f then f else f + 1)"

definition py_round :: "real \<Rightarrow> nat \<Rightarrow> real" where
  "py_round x ndigits = of_int (round_half_even (x * 10 ^ ndigits)) / 10 ^ ndigits"

text \<open>
  \<^verbatim>\<open>str.lower()\<close>: the letters A to Z go to a to z. Every other byte stays; no
  character outside ASCII lowers to one of the letters of \<^verbatim>\<open>"male"\<close>.
\<close>

definition lower_char :: "char \<Rightarrow> char" where
  "lower_char c =
     (let n = (of_char c :: nat) in if 65 \<le> n \<and> n \<le> 90 then char_of (n + 32) else c)"

definition lower :: "string \<Rightarrow> string" where
  "lower s = map lower_char s"

text \<open>The test \<^verbatim>\<open>gender.lower() in ["male", "m"]\<close> that selects the coefficients.\<close>

definition is_male :: "string \<Rightarrow> bool" where
  "is_male gender \<longleftrightarrow> lower gender \<in> set [''male'', ''m'']"

datatype py_error = ValueError | ZeroDivisionError | TypeError | OverflowError

text \<open>\<^verbatim>\<open>math.log10\<close> raises \<^verbatim>\<open>ValueError\<close> on an argument that is not positive.\<close>

definition log10 :: "real \<Rightarrow> py_error + real" where
  "log10 x = (if x \<le> 0 then Inl ValueError else Inr (log 10 x))"

text \<open>Float division raises \<^verbatim>\<open>ZeroDivisionError\<close> on a zero divisor.\<close>

definition py_div :: "real \<Rightarrow> real \<Rightarrow> py_error + real" where
  "py_div a b = (if b = 0 then Inl ZeroDivisionError else Inr (a / b))"

subsection \<open>Binary64 arithmetic\<close>

text \<open>The number of binary digits of a positive integer.\<close>

function bit_length :: "int \<Rightarrow> nat" where
  "bit_length n = (if n \<le> 0 then 0 else Suc (bit_length (n div 2)))"
  by pat_completeness auto
termination
  by (relation "measure nat") auto

declare bit_length.simps [simp del]

text \<open>The binary exponent of a real that is not zero: \<open>2 powi e \<le> \<bar>x\<bar> < 2 powi (e + 1)\<close>.\<close>

definition exponent :: "real \<Rightarrow> int" where
  "exponent x =
     (let a = \<bar>x\<bar>
      in if 1 \<le> a then int (bit_length \<lfloor>a\<rfloor>) - 1
         else - int (bit_length (\<lceil>1 / a\<rceil> - 1)))"

text \<open>
  Rounding to the nearest binary64 float, ties to the even significand: 53 significant
  bits from the exponent -1022 upwards, multiples of \<open>2 powi -1074\<close> below (the subnormal
  floats, then zero). The exponent is not bounded above here; \<open>ieee\<close> does that.
\<close>

definition fl64 :: "real \<Rightarrow> real" where
  "fl64 x =
     (if x = 0 then 0
      else let q = 2 powi (max (exponent x) (- 1022) - 52)
           in of_int (round_half_even (x / q)) * q)"

definition max_float :: real where
  "max_float = (2 ^ 53 - 1) * 2 ^ 971"

text \<open>A float value: finite, or one of the two infinities.\<close>

datatype pyfloat = Finite real | PosInf | NegInf

text \<open>The result of \<^verbatim>\<open>*\<close> or \<^verbatim>\<open>/\<close> whose exact value is \<open>x\<close>: overflow gives an infinity.\<close>

definition ieee :: "real \<Rightarrow> pyfloat" where
  "ieee x =
     (let r = fl64 x
      in if max_float < r then PosInf else if r < - max_float then NegInf else Finite r)"

text \<open>
  \<^verbatim>\<open>round(v, ndigits)\<close> in binary64, for \<open>ndigits\<close> that is not negative: the float
  nearest to the rounded decimal; an infinity rounds to itself.
\<close>

definition round_float :: "pyfloat \<Rightarrow> nat \<Rightarrow> pyfloat" where
  "round_float v ndigits =
     (case v of
        Finite x \<Rightarrow> Finite (fl64 (py_round x ndigits))
      | PosInf \<Rightarrow> PosInf
      | NegInf \<Rightarrow> NegInf)"

text \<open>
  \<^verbatim>\<open>x ** 2\<close> on a float calls \<^verbatim>\<open>pow\<close> of the C library, whose last bit IEEE 754 does
  not fix: its rounding of the exact square is the parameter \<open>pow_fl\<close> (\<open>fl64\<close> for a
  correctly rounded \<^verbatim>\<open>pow\<close>). A result beyond the largest float raises
  \<^verbatim>\<open>OverflowError\<close>; an underflow to zero is returned as zero.
\<close>

definition py_pow2 :: "(real \<Rightarrow> real) \<Rightarrow> real \<Rightarrow> py_error + real" where
  "py_pow2 pow_fl x =
     (let r = pow_fl (x * x) in if max_float < \<bar>r\<bar> then Inl OverflowError else Inr r)"

subsection \<open>Unit conversion\<close>

definition cm_to_feet_inches :: "real \<Rightarrow> int \<times> real" where
  "cm_to_feet_inches cm =
     (let inches = cm / 2.54;
          feet = \<lfloor>inches / 12\<rfloor>;
          rem_in = inches - of_int (feet * 12)
      in (feet, rem_in))"

definition feet_inches_to_cm :: "int \<Rightarrow> real \<Rightarrow> real" where
  "feet_inches_to_cm feet inches =
     (let total_inches = of_int (feet * 12) + inches in total_inches * 2.54)"

text \<open>
  The same two conversions in rounded arithmetic: the result of every float operation
  goes through a rounding \<open>fl\<close>, and \<open>c\<close> is the float that the literal \<^verbatim>\<open>2.54\<close>
  denotes. The products \<^verbatim>\<open>feet * 12\<close> are integer products and the floor division is
  taken exact. With the identity for \<open>fl\<close> and 2.54 for \<open>c\<close> these are the functions
  above.
\<close>

definition cm_to_feet_inches_fl :: "(real \<Rightarrow> real) \<Rightarrow> real \<Rightarrow> real \<Rightarrow> int \<times> real" where
  "cm_to_feet_inches_fl fl c cm =
     (let inches = fl (cm / c);
          feet = \<lfloor>inches / 12\<rfloor>;
          rem_in = fl (inches - of_int (feet * 12))
      in (feet, rem_in))"

definition feet_inches_to_cm_fl :: "(real \<Rightarrow> real) \<Rightarrow> real \<Rightarrow> int \<Rightarrow> real \<Rightarrow> real" where
  "feet_inches_to_cm_fl fl c feet inches =
     (let total_inches = fl (of_int (feet * 12) + inches) in fl (total_inches * c))"

subsection \<open>BMI\<close>

definition calculate_bmi :: "real \<Rightarrow> real \<Rightarrow> real option" where
  "calculate_bmi weight_kg height_cm =
     (if height_cm \<le> 0 then None
      else let height_m = height_cm / 100;
               bmi = weight_kg / (height_m ^ 2)
           in Some (py_round bmi 2))"

text \<open>
  The same function in binary64. The result is \<open>Inr\<close> of what the function returns, or
  \<open>Inl\<close> of the exception that leaves it: \<^verbatim>\<open>**\<close> can overflow, and a square that
  underflowed to zero makes the division raise.
\<close>

definition calculate_bmi_fl ::
    "(real \<Rightarrow> real) \<Rightarrow> real \<Rightarrow> real \<Rightarrow> py_error + pyfloat option" where
  "calculate_bmi_fl pow_fl weight_kg height_cm =
     (if height_cm \<le> 0 then Inr None
      else let height_m = fl64 (height_cm / 100)
           in case py_pow2 pow_fl height_m of
                Inl e \<Rightarrow> Inl e
              | Inr sq \<Rightarrow>
                  if sq = 0 then Inl ZeroDivisionError
                  else Inr (Some (round_float (ieee (weight_kg / sq)) 2)))"

definition bmi_category :: "real option \<Rightarrow> string" where
  "bmi_category bmi =
     (case bmi of
        None \<Rightarrow> ''Invalid''
      | Some b \<Rightarrow>
          if b < 18.5 then ''Underweight''
          else if 18.5 \<le> b \<and> b < 25 then ''Normal''
          else if 25 \<le> b \<and> b < 30 then ''Overweight''
          else ''Obese'')"

subsection \<open>BMR (Mifflin-St Jeor)\<close>

definition calculate_bmr :: "string \<Rightarrow> real \<Rightarrow> real \<Rightarrow> real \<Rightarrow> real" where
  "calculate_bmr gender age weight_kg height_cm =
     (let bmr = (if is_male gender
                 then 10 * weight_kg + 6.25 * height_cm - 5 * age + 5
                 else 10 * weight_kg + 6.25 * height_cm - 5 * age - 161)
      in py_round bmr 0)"

subsection \<open>Body fat (Navy method)\<close>

text \<open>
  The body of the \<^verbatim>\<open>try\<close> block of \<^verbatim>\<open>body_fat_navy\<close>, every raise a branch. In the
  female branch \<^verbatim>\<open>waist_cm + hip_cm\<close> is evaluated first and raises \<^verbatim>\<open>TypeError\<close>
  when \<^verbatim>\<open>hip_cm\<close> is \<^verbatim>\<open>None\<close>; the logarithms follow from left to right.
\<close>

definition body_fat_navy_try ::
    "string \<Rightarrow> real \<Rightarrow> real \<Rightarrow> real \<Rightarrow> real option \<Rightarrow> py_error + real" where
  "body_fat_navy_try gender waist_cm neck_cm height_cm hip_cm =
     (if is_male gender then
        (case log10 (waist_cm - neck_cm) of
           Inl e \<Rightarrow> Inl e
         | Inr l1 \<Rightarrow>
            (case log10 height_cm of
               Inl e \<Rightarrow> Inl e
             | Inr l2 \<Rightarrow>
                (let val = 1.0324 - 0.19077 * l1 + 0.15456 * l2
                 in case py_div 495 val of
                      Inl e \<Rightarrow> Inl e
                    | Inr q \<Rightarrow> Inr (py_round (q - 450) 1))))
      else
        (case hip_cm of
           None \<Rightarrow> Inl TypeError
         | Some hip \<Rightarrow>
            (case log10 (waist_cm + hip - neck_cm) of
               Inl e \<Rightarrow> Inl e
             | Inr l1 \<Rightarrow>
                (case log10 height_cm of
                   Inl e \<Rightarrow> Inl e
                 | Inr l2 \<Rightarrow>
                    (let val = 1.29579 - 0.35004 * l1 + 0.22100 * l2
                     in case py_div 495 val of
                          Inl e \<Rightarrow> Inl e
                        | Inr q \<Rightarrow> Inr (py_round (q - 450) 1))))))"

text \<open>
  The whole function: \<^verbatim>\<open>except Exception: return None\<close> turns every error of the body
  into \<^const>\<open>None\<close>. The result is \<open>Inr\<close> of what the function returns; \<open>Inl\<close> would
  be an exception that leaves the function.
\<close>

definition body_fat_navy ::
    "string \<Rightarrow> real \<Rightarrow> real \<Rightarrow> real \<Rightarrow> real option \<Rightarrow> py_error + real option" where
  "body_fat_navy gender waist_cm neck_cm height_cm hip_cm =
     (case body_fat_navy_try gender waist_cm neck_cm height_cm hip_cm of
        Inr bf \<Rightarrow> Inr (Some bf)
      | Inl e \<Rightarrow> Inr None)"

definition bf_interpretation :: "string \<Rightarrow> real \<Rightarrow> real option \<Rightarrow> string" where
  "bf_interpretation gender age bf =
     (case bf of
        None \<Rightarrow> ''Invalid data for estimation''
      | Some b \<Rightarrow>
          if is_male gender then
            (if b < 6 then ''Essential fat''
             else if 6 \<le> b \<and> b < 14 then ''Athlete''
             else if 14 \<le> b \<and> b < 18 then ''Fit''
             else if 18 \<le> b \<and> b < 25 then ''Average''
             else ''Obese'')
          else
            (if b < 14 then ''Essential fat''
             else if 14 \<le> b \<and> b < 21 then ''Athlete''
             else if 21 \<le> b \<and> b < 25 then ''Fit''
             else if 25 \<le> b \<and> b < 32 then ''Average''
             else ''Obese''))"

subsection \<open>Ideal weight range\<close>

text \<open>
  The two lines of the Ideal Weight tab that derive the range from the Devine and the
  Hamwi estimate, in binary64: the literals \<^verbatim>\<open>0.95\<close> and \<^verbatim>\<open>1.05\<close> denote the floats
  nearest to them, each product is rounded to a float and then to one decimal place.
\<close>

definition ideal_weight_range :: "real \<Rightarrow> real \<Rightarrow> pyfloat \<times> pyfloat" where
  "ideal_weight_range dev ham =
     (let lower_kg = round_float (ieee (min dev ham * fl64 0.95)) 1;
          upper_kg = round_float (ieee (max dev ham * fl64 1.05)) 1
      in (lower_kg, upper_kg))"

subsection \<open>Tip carousel\<close>

text \<open>
  The session state is a dictionary; the handlers of the Prev and Next buttons read
  \<^verbatim>\<open>tip_idx\<close> with default 0 and store the new index.
\<close>

type_synonym session_state = "string \<rightharpoonup> int"

definition get_tip_idx :: "session_state \<Rightarrow> int" where
  "get_tip_idx st = (case st ''tip_idx'' of None \<Rightarrow> 0 | Some i \<Rightarrow> i)"

definition prev_tip :: "int \<Rightarrow> int" where
  "prev_tip idx = max 0 (idx - 1)"

definition next_tip :: "int \<Rightarrow> int" where
  "next_tip idx = idx + 1"

definition prev_click :: "session_state \<Rightarrow> session_state" where
  "prev_click st = st(''tip_idx'' \<mapsto> prev_tip (get_tip_idx st))"

definition next_click :: "session_state \<Rightarrow> session_state" where
  "next_click st = st(''tip_idx'' \<mapsto> next_tip (get_tip_idx st))"

text \<open>A Prev click hits the zero clamp when the decremented index is negative.\<close>

definition hits_clamp :: "int \<Rightarrow> bool" where
  "hits_clamp idx \<longleftrightarrow> idx - 1 < 0"

section \<open>Properties\<close>

subsection \<open>Rounding\<close>

lemma round_half_even_bounds: "\<bar>of_int (round_half_even y) - y\<bar> \<le> 1/2"
  unfolding round_half_even_def Let_def by (auto; linarith)



lemma py_round_error: "\<bar>py_round x n - x\<bar> \<le> 1 / (2 * 10 ^ n)"
proof -
  have "\<bar>py_round x n - x\<bar>
          = \<bar>of_int (round_half_even (x * 10 ^ n)) - x * 10 ^ n\<bar> / 10 ^ n"
    unfolding py_round_def by (simp add: field_simps)
  also have "\<dots> \<le> (1/2) / 10 ^ n"
    by (intro divide_right_mono round_half_even_bounds) simp
  finally show ?thesis by simp
qed

lemma py_round_decimal: "\<exists>k::int. py_round x n = of_int k / 10 ^ n"
  unfolding py_round_def by blast

subsection \<open>Binary64 rounding\<close>

text \<open>
  \<open>fl64\<close> is within half a unit in the last place: a relative error of \<open>2 ^ -53\<close>, or
  half the subnormal spacing. What is smaller than half that spacing rounds to zero.
\<close>

lemma bit_length_upper: "0 \<le> n \<Longrightarrow> n < 2 ^ bit_length n"
proof (induction n rule: bit_length.induct)
  case (1 n)
  show ?case
  proof (cases "n \<le> 0")
    case True
    with "1.prems" show ?thesis by (simp add: bit_length.simps [of n])
  next
    case False
    then have "n div 2 < 2 ^ bit_length (n div 2)" using "1.IH" by simp
    then have "n < 2 * 2 ^ bit_length (n div 2)" by linarith
    with False show ?thesis by (simp add: bit_length.simps [of n])
  qed
qed

lemma bit_length_lower: "0 < n \<Longrightarrow> 2 ^ (bit_length n - 1) \<le> n"
proof (induction n rule: bit_length.induct)
  case (1 n)
  then have pos: "\<not> n \<le> 0" by simp
  show ?case
  proof (cases "n div 2 \<le> 0")
    case True
    then have "bit_length (n div 2) = 0" by (simp add: bit_length.simps [of "n div 2"])
    with pos "1.prems" show ?thesis by (simp add: bit_length.simps [of n])
  next
    case False
    then have ih: "2 ^ (bit_length (n div 2) - 1) \<le> n div 2" using "1.IH" pos by simp
    from False have "0 < bit_length (n div 2)" by (simp add: bit_length.simps [of "n div 2"])
    then have "(2::int) ^ bit_length (n div 2) = 2 * 2 ^ (bit_length (n div 2) - 1)"
      by (cases "bit_length (n div 2)") simp_all
    with ih have "2 ^ bit_length (n div 2) \<le> n" by linarith
    with pos show ?thesis by (simp add: bit_length.simps [of n])
  qed
qed

lemma bit_length_pos: "0 < n \<Longrightarrow> 0 < bit_length n"
  by (simp add: bit_length.simps [of n])

lemma exponent_lower: 
  assumes "x \<noteq> 0" shows "2 powi (exponent x) \<le> \<bar>x\<bar>"
proof (cases "1 \<le> \<bar>x\<bar>")
  case True
  define n where "n = \<lfloor>\<bar>x\<bar>\<rfloor>"
  from True have n: "0 < n" unfolding n_def by linarith
  have e: "exponent x = int (bit_length n - 1)"
    using True bit_length_pos [OF n] by (simp add: exponent_def n_def Let_def)
  have "(2::real) powi (exponent x) = of_int (2 ^ (bit_length n - 1))"
    unfolding e by simp
  also have "\<dots> \<le> of_int n" using bit_length_lower [OF n] by (simp only: of_int_le_iff)
  also have "\<dots> \<le> \<bar>x\<bar>" unfolding n_def by linarith
  finally show ?thesis .
next
  case False
  define a where "a = \<bar>x\<bar>"
  from False assms have a: "0 < a" "a < 1" by (simp_all add: a_def)
  define m where "m = \<lceil>1 / a\<rceil> - 1"
  from a have "1 < 1 / a" by simp
  then have m: "0 < m" unfolding m_def by linarith
  define k where "k = bit_length m"
  have e: "exponent x = - int k"
    using False by (simp add: exponent_def Let_def k_def m_def a_def)
  have "1 / a \<le> of_int (m + 1)" unfolding m_def by linarith
  also have "m + 1 \<le> 2 ^ k" using bit_length_upper [of m] m unfolding k_def by linarith
  then have "(of_int (m + 1) :: real) \<le> of_int (2 ^ k)" by (simp only: of_int_le_iff)
  finally have "1 / a \<le> 2 ^ k" by simp
  then have "1 / 2 ^ k \<le> a" using a by (simp add: field_simps)
  then show ?thesis unfolding e a_def by (simp add: power_int_minus field_simps)
qed

lemma exponent_upper:
  assumes "x \<noteq> 0"
  shows "\<bar>x\<bar> < 2 powi (exponent x + 1)"
proof (cases "1 \<le> \<bar>x\<bar>")
  case True
  define n where "n = \<lfloor>\<bar>x\<bar>\<rfloor>"
  from True have n: "0 < n" unfolding n_def by linarith
  have e: "exponent x + 1 = int (bit_length n)"
    using True by (simp add: exponent_def n_def Let_def)
  have "n + 1 \<le> 2 ^ bit_length n" using bit_length_upper [of n] n by linarith
  then have "(of_int (n + 1) :: real) \<le> of_int (2 ^ bit_length n)" by (simp only: of_int_le_iff)
  moreover have "\<bar>x\<bar> < of_int (n + 1)" unfolding n_def by linarith
  ultimately have "\<bar>x\<bar> < 2 ^ bit_length n" by simp
  then show ?thesis unfolding e by simp
next
  case False
  define a where "a = \<bar>x\<bar>"
  from False assms have a: "0 < a" "a < 1" by (simp_all add: a_def)
  define m where "m = \<lceil>1 / a\<rceil> - 1"
  from a have "1 < 1 / a" by simp
  then have m: "0 < m" unfolding m_def by linarith
  define k where "k = bit_length m"
  from bit_length_pos [OF m] have k: "0 < k" by (simp add: k_def)
  have e: "exponent x + 1 = - int (k - 1)"
    using False k by (simp add: exponent_def Let_def k_def m_def a_def)
  have "2 ^ (k - 1) \<le> m" using bit_length_lower [OF m] by (simp add: k_def)
  then have "(of_int (2 ^ (k - 1)) :: real) \<le> of_int m" by (simp only: of_int_le_iff)
  then have "(2 :: real) ^ (k - 1) \<le> of_int m" by simp
  moreover have "of_int m < 1 / a" unfolding m_def by linarith
  ultimately have "2 ^ (k - 1) < 1 / a" by linarith
  then have "a < 1 / 2 ^ (k - 1)" using a by (simp add: field_simps)
  then show ?thesis unfolding e a_def by (simp add: power_int_minus field_simps)
qed

lemma round_half_even_small: "\<bar>y\<bar> < 1/2 \<Longrightarrow> round_half_even y = 0"
proof (cases "0 \<le> y")
  case True
  assume "\<bar>y\<bar> < 1/2"
  with True have "\<lfloor>y\<rfloor> = 0" by linarith
  with \<open>\<bar>y\<bar> < 1/2\<close> True show ?thesis by (simp add: round_half_even_def)
next
  case False
  assume "\<bar>y\<bar> < 1/2"
  with False have "\<lfloor>y\<rfloor> = -1" by linarith
  with \<open>\<bar>y\<bar> < 1/2\<close> False show ?thesis by (simp add: round_half_even_def)
qed

lemma fl64_quantum:
  assumes "x \<noteq> 0"
  defines "q \<equiv> 2 powi (max (exponent x) (- 1022) - 52)"
  shows "0 < q" "1 / 2 ^ 1074 \<le> q" "q \<le> \<bar>x\<bar> / 2 ^ 52 + 1 / 2 ^ 1074" "fl64 x = of_int (round_half_even (x / q)) * q"
proof -
  show "0 < q" unfolding q_def by simp
  have "(2::real) powi (- 1074) \<le> 2 powi (max (exponent x) (- 1022) - 52)"
    by (intro power_int_increasing) simp_all
  then show "1 / 2 ^ 1074 \<le> q" unfolding q_def by (simp add: power_int_minus field_simps)
  show "q \<le> \<bar>x\<bar> / 2 ^ 52 + 1 / 2 ^ 1074"
  proof (cases "exponent x \<le> - 1022")
    case True
    then have "q = 2 powi (- 1074)" unfolding q_def by (simp add: max_def)
    then show ?thesis by (simp add: power_int_minus field_simps)
  next
    case False
    then have "q = 2 powi (exponent x - 52)" unfolding q_def by (simp add: max_def)
    also have "\<dots> = 2 powi (exponent x) / 2 ^ 52" by (simp add: power_int_diff)
    also have "\<dots> \<le> \<bar>x\<bar> / 2 ^ 52" using exponent_lower [OF assms(1)] by (intro divide_right_mono) simp_all
    finally show ?thesis by simp
  qed
  show "fl64 x = of_int (round_half_even (x / q)) * q"
    using assms(1) unfolding q_def fl64_def Let_def by simp
qed

lemma fl64_error: "\<bar>fl64 x - x\<bar> \<le> \<bar>x\<bar> / 2 ^ 53 + 1 / 2 ^ 1075"
proof (cases "x = 0")
  case True
  then show ?thesis by (simp add: fl64_def)
next
  case False
  define q :: real where "q = 2 powi (max (exponent x) (- 1022) - 52)"
  note Q = fl64_quantum [OF False, folded q_def]
  have "fl64 x - x = (of_int (round_half_even (x / q)) - x / q) * q"
    using Q(1,4) by (simp add: field_simps)
  then have "\<bar>fl64 x - x\<bar> = \<bar>of_int (round_half_even (x / q)) - x / q\<bar> * q"
    using Q(1) by (simp add: abs_mult)
  also have "\<dots> \<le> (1/2) * q"
    using Q(1) round_half_even_bounds [of "x / q"] by (intro mult_right_mono) simp_all
  also have "\<dots> \<le> (1/2) * (\<bar>x\<bar> / 2 ^ 52 + 1 / 2 ^ 1074)"
    using Q(3) by (intro mult_left_mono) simp_all
  finally show ?thesis by simp
qed

lemma fl64_underflow:
  assumes "\<bar>x\<bar> < 1 / 2 ^ 1075"
  shows "fl64 x = 0"
proof (cases "x = 0")
  case True
  then show ?thesis by (simp add: fl64_def)
next
  case False
  define q :: real where "q = 2 powi (max (exponent x) (- 1022) - 52)"
  note Q = fl64_quantum [OF False, folded q_def]
  have "\<bar>x\<bar> < (1/2) * (1 / 2 ^ 1074)" using assms by simp
  also have "\<dots> \<le> (1/2) * q" using Q(2) by (intro mult_left_mono) simp_all
  finally have "\<bar>x / q\<bar> < 1/2" using Q(1) by (simp add: field_simps)
  then have "round_half_even (x / q) = 0" by (rule round_half_even_small)
  with Q(4) show ?thesis by simp
qed

lemma fl64_near:
  assumes "\<bar>x\<bar> \<le> m"
  shows "\<bar>fl64 x - x\<bar> \<le> m / 2 ^ 53 + 1 / 2 ^ 1075"
proof -
  have "\<bar>x\<bar> / 2 ^ 53 \<le> m / 2 ^ 53" using assms by (intro divide_right_mono) simp_all
  with fl64_error [of x] show ?thesis by linarith
qed

lemma fl64_one_ulp: "\<bar>fl64 y - y\<bar> \<le> \<bar>y\<bar> / 2 ^ 52 + 1 / 2 ^ 1074"
proof -
  have "\<bar>y\<bar> / 2 ^ 53 \<le> \<bar>y\<bar> / 2 ^ 52" by (intro divide_left_mono) simp_all
  moreover have "(1 / 2 ^ 1075 :: real) \<le> 1 / 2 ^ 1074" by simp
  ultimately show ?thesis using fl64_error [of y] by linarith
qed

lemma py_pow2_Inr: "py_pow2 pow_fl x = Inr sq \<Longrightarrow> sq = pow_fl (x * x)"
  by (simp add: py_pow2_def Let_def split: if_splits)


lemma fl64_abs_le: "\<bar>fl64 x\<bar> \<le> 2 * \<bar>x\<bar> + 1 / 2 ^ 1075"
proof -
  have "\<bar>x\<bar> / 2 ^ 53 \<le> \<bar>x\<bar> / 1" by (intro divide_left_mono) simp_all
  with fl64_error [of x] show ?thesis by linarith
qed

lemma fl64_ge_half:
  assumes "1 \<le> x"
  shows "x / 2 \<le> fl64 x"
proof -
  have "\<bar>x\<bar> / 2 ^ 53 \<le> \<bar>x\<bar> / 4" by (intro divide_left_mono) simp_all
  moreover have "(1 / 2 ^ 1075 :: real) \<le> 1 / 4" by simp
  ultimately show ?thesis using fl64_error [of x] assms by linarith
qed


lemma max_float_big: "2000 \<le> max_float"
  by (simp add: max_float_def)

lemma ieee_finite: "\<bar>fl64 x\<bar> \<le> 2000 \<Longrightarrow> ieee x = Finite (fl64 x)"
  using max_float_big by (auto simp: ieee_def Let_def abs_le_iff)

lemma fl64_near_2000: "\<bar>x\<bar> \<le> 2000 \<Longrightarrow> \<bar>fl64 x - x\<bar> \<le> 1 / 1000000000000"
  using fl64_near [of x 2000] by simp

lemma fl64_near_16: "\<bar>x\<bar> \<le> 16 \<Longrightarrow> \<bar>fl64 x - x\<bar> \<le> 1 / 100000000000000"
  using fl64_near [of x 16] by simp

lemma round_float_ieee_near:
  assumes "\<bar>x\<bar> \<le> 1990"
  shows "\<exists>b. round_float (ieee x) n = Finite b \<and> b = fl64 (py_round (fl64 x) n)
           \<and> \<bar>b - x\<bar> \<le> 1 / (2 * 10 ^ n) + 2 / 1000000000000"
proof -
  define f where "f = fl64 x"
  define r where "r = py_round f n"
  have fx: "\<bar>f - x\<bar> \<le> 1 / 1000000000000"
    unfolding f_def using assms by (intro fl64_near_2000) simp
  then have fb: "\<bar>f\<bar> \<le> 1991" using assms by linarith
  with max_float_big have i: "ieee x = Finite f"
    unfolding ieee_def Let_def f_def [symmetric] by (auto simp: abs_le_iff)
  have rf: "\<bar>r - f\<bar> \<le> 1 / (2 * 10 ^ n)" unfolding r_def by (rule py_round_error)
  have "(1::real) \<le> 10 ^ n" by simp
  then have "1 / (2 * 10 ^ n) \<le> (1 / 2 :: real)" by (simp add: field_simps)
  with rf fb have "\<bar>r\<bar> \<le> 2000" by linarith
  then have br: "\<bar>fl64 r - r\<bar> \<le> 1 / 1000000000000" by (rule fl64_near_2000)
  have "\<bar>fl64 r - x\<bar> \<le> 1 / (2 * 10 ^ n) + 2 / 1000000000000" using br rf fx by linarith
  then show ?thesis
    by (simp add: i round_float_def r_def f_def)
qed

lemma quotient_near:
  fixes w s X d a W :: real
  assumes "0 < a" "a \<le> s" "a \<le> X" "\<bar>s - X\<bar> \<le> d" "0 \<le> w" "w \<le> W"
  shows "\<bar>w / s - w / X\<bar> \<le> W * d / (a * a)"
proof -
  from assms have pos: "0 < s" "0 < X" by linarith+
  then have "w / s - w / X = w * (X - s) / (s * X)" by (simp add: field_simps)
  then have "\<bar>w / s - w / X\<bar> = w * \<bar>s - X\<bar> / (s * X)"
    using pos assms(5) by (simp add: abs_mult abs_minus_commute)
  also have "\<dots> \<le> W * d / (a * a)"
  proof -
    from assms(4) have d: "0 \<le> d" by linarith
    have n1: "w * \<bar>s - X\<bar> \<le> W * d" using assms(4,5,6) by (intro mult_mono) simp_all
    have n2: "a * a \<le> s * X" using assms(1,2,3) by (intro mult_mono) simp_all
    have n3: "0 \<le> W * d" using d assms(5,6) by simp
    have n4: "0 < a * a" using assms(1) by simp
    show ?thesis by (rule frac_le) (use n1 n2 n3 n4 assms(5) in simp_all)
  qed
  finally show ?thesis .
qed


subsection \<open>BMR\<close>

text \<open>
  Claim C1, as the code has it. For a gender that lowers to \<^verbatim>\<open>"male"\<close> or \<^verbatim>\<open>"m"\<close>,
  \<open>calculate_bmr\<close> is the male Mifflin-St Jeor formula
  \<open>10 * weight + 6.25 * height - 5 * age + 5\<close> rounded to whole kcal. At
  \<open>("male", 30, 70, 170)\<close> the formula gives 1617.5 and the result is 1618, the tie going
  to the even neighbour.
\<close>

theorem calculate_bmr_male:
  "(is_male gender \<longrightarrow>
      calculate_bmr gender age weight_kg height_cm
        = py_round (10 * weight_kg + 6.25 * height_cm - 5 * age + 5) 0)
   \<and> 10 * 70 + 6.25 * 170 - 5 * 30 + 5 = (1617.5 :: real)
   \<and> calculate_bmr ''male'' 30 70 170 = 1618"
proof -
  have "calculate_bmr ''male'' 30 70 170 = 1618"
    by code_simp
  then show ?thesis
    by (simp add: calculate_bmr_def)
qed

theorem calculate_bmr_male_witness:
  "is_male ''male'' \<and> calculate_bmr ''male'' 30 70 170 = py_round 1617.5 0
   \<and> py_round 1617.5 0 = 1618"
proof -
  have m: "is_male ''male''" by code_simp
  have r: "py_round 1617.5 0 = 1618" by code_simp
  from m r calculate_bmr_male [of "''male''" 30 70 170] show ?thesis by simp
qed

text \<open>
  Claim C1 as stated fails: the result at \<open>("male", 30, 70, 170)\<close> is neither 1643 nor
  1642.
\<close>

theorem calculate_bmr_male_counterexample:
  "calculate_bmr ''male'' 30 70 170 \<noteq> 1643 \<and> calculate_bmr ''male'' 30 70 170 \<noteq> 1642"
proof -
  have "calculate_bmr ''male'' 30 70 170 = 1618"
    by code_simp
  then show ?thesis by simp
qed

subsection \<open>BMI\<close>

text \<open>
  In the recognised input domain (height 50 to 300 cm, weight 20 to 400 kg), with a
  \<^verbatim>\<open>pow\<close> that is within one unit in the last place, nothing overflows or underflows
  and the rounding errors of the three operations stay far below the second decimal.
\<close>

lemma calculate_bmi_fl_in_range:
  assumes pw: "\<forall>y. \<bar>pow_fl y - y\<bar> \<le> \<bar>y\<bar> / 2 ^ 52 + 1 / 2 ^ 1074"
    and h: "50 \<le> height_cm" "height_cm \<le> 300"
    and w: "20 \<le> weight_kg" "weight_kg \<le> 400"
  shows "\<exists>sq b. py_pow2 pow_fl (fl64 (height_cm / 100)) = Inr sq
           \<and> calculate_bmi_fl pow_fl weight_kg height_cm = Inr (Some (Finite b))
           \<and> b = fl64 (py_round (fl64 (weight_kg / sq)) 2)
           \<and> \<bar>b - weight_kg / (height_cm / 100) ^ 2\<bar> \<le> 1 / 200 + 1 / 10 ^ 8"
proof -
  define x0 where "x0 = height_cm / 100"
  define hm where "hm = fl64 x0"
  define y where "y = hm * hm"
  define s where "s = pow_fl y"
  define X where "X = x0 ^ 2"
  have x0: "1 / 2 \<le> x0" "x0 \<le> 3" using h by (simp_all add: x0_def)
  then have "\<bar>x0\<bar> \<le> 16" by simp
  from fl64_near_16 [OF this] have hx: "\<bar>hm - x0\<bar> \<le> 1 / 100000000000000"
    by (simp add: hm_def)
  with x0 have hm: "49 / 100 \<le> hm" "hm \<le> 301 / 100" by linarith+
  have "y - X = (hm - x0) * (hm + x0)" by (simp add: y_def X_def power2_eq_square algebra_simps)
  then have "\<bar>y - X\<bar> = \<bar>hm - x0\<bar> * \<bar>hm + x0\<bar>" by (simp add: abs_mult)
  also have "\<dots> \<le> (1 / 100000000000000) * 7"
    using hx hm x0 by (intro mult_mono) simp_all
  finally have yX: "\<bar>y - X\<bar> \<le> 7 / 100000000000000" by simp
  have X: "1 / 4 \<le> X" "X \<le> 9"
  proof -
    have "(1 / 2) ^ 2 \<le> x0 ^ 2" using x0 by (intro power_mono) simp_all
    then show "1 / 4 \<le> X" by (simp add: X_def power2_eq_square)
    have "x0 ^ 2 \<le> 3 ^ 2" using x0 by (intro power_mono) simp_all
    then show "X \<le> 9" by (simp add: X_def)
  qed
  with yX have y: "0 \<le> y" "y \<le> 16" by linarith+
  then have "\<bar>y\<bar> / 2 ^ 52 \<le> 16 / 2 ^ 52" by (intro divide_right_mono) simp_all
  with pw [rule_format, of y] have "\<bar>s - y\<bar> \<le> 16 / 2 ^ 52 + 1 / 2 ^ 1074"
    unfolding s_def by linarith
  then have sy: "\<bar>s - y\<bar> \<le> 1 / 100000000000000" by simp
  with yX have sX: "\<bar>s - X\<bar> \<le> 8 / 100000000000000" by linarith
  with X have s: "6 / 25 \<le> s" "s \<le> 10" by linarith+
  then have "\<not> max_float < \<bar>s\<bar>" using max_float_big by simp
  then have p: "py_pow2 pow_fl hm = Inr s"
    by (simp add: py_pow2_def Let_def s_def y_def)
  from s have s0: "s \<noteq> 0" by simp
  have q: "\<bar>weight_kg / s - weight_kg / X\<bar> \<le> 400 * (8 / 100000000000000) / ((6 / 25) * (6 / 25))"
    using s X sX w by (intro quotient_near) simp_all
  have "weight_kg / s \<le> 400 / (6 / 25)"
    using w s by (intro frac_le) simp_all
  moreover have "0 \<le> weight_kg / s" using w s by simp
  ultimately have "\<bar>weight_kg / s\<bar> \<le> 400 / (6 / 25)" by (simp only: abs_of_nonneg)
  also have "\<dots> \<le> 1990" by simp
  finally have "\<bar>weight_kg / s\<bar> \<le> 1990" .
  from round_float_ieee_near [OF this, of 2]
  obtain b where b: "round_float (ieee (weight_kg / s)) 2 = Finite b"
    "b = fl64 (py_round (fl64 (weight_kg / s)) 2)"
    "\<bar>b - weight_kg / s\<bar> \<le> 1 / (2 * 10 ^ 2) + 2 / 1000000000000" by blast
  have "400 * (8 / 100000000000000) / ((6 / 25) * (6 / 25)) \<le> (1 / 1000000000 :: real)"
    by simp
  with q have q': "\<bar>weight_kg / s - weight_kg / X\<bar> \<le> 1 / 1000000000"
    by (rule order_trans)
  have "1 / (2 * 10 ^ 2) + 2 / 1000000000000 \<le> (1 / 200 + 1 / 500000000000 :: real)"
    by simp
  with b(3) have b': "\<bar>b - weight_kg / s\<bar> \<le> 1 / 200 + 1 / 500000000000"
    by (rule order_trans)
  from b' q' have "\<bar>b - weight_kg / X\<bar> \<le> 1 / 200 + 1 / 100000000" by linarith
  then have "\<bar>b - weight_kg / X\<bar> \<le> 1 / 200 + 1 / 10 ^ 8" by simp
  moreover have "calculate_bmi_fl pow_fl weight_kg height_cm = Inr (Some (Finite b))"
    using h p s0 b(1) by (simp add: calculate_bmi_fl_def Let_def hm_def x0_def)
  ultimately show ?thesis using p b(2) by (auto simp: hm_def x0_def X_def)
qed

text \<open>
  Claim C2, as the code has it. \<open>calculate_bmi\<close> returns \<open>None\<close> exactly when the height
  is not positive. For a height between 50 and 300 cm and a weight between 20 and 400 kg
  it returns a number: \<^verbatim>\<open>round(q, 2)\<close> of the float quotient \<open>q\<close> of the weight by the
  squared height in metres, which is the float nearest to a multiple of 0.01 and lies
  within 0.005, up to a rounding error below \<open>10 ^ -8\<close>, of the exact quotient. In
  particular \<open>calculate_bmi 70 0\<close> is \<open>None\<close>. Heights whose square underflows or overflows
  are left out.
\<close>

theorem calculate_bmi_fl_invalid_iff:
  "(calculate_bmi_fl pow_fl weight_kg height_cm = Inr None \<longleftrightarrow> height_cm \<le> 0)
   \<and> ((\<forall>y. \<bar>pow_fl y - y\<bar> \<le> \<bar>y\<bar> / 2 ^ 52 + 1 / 2 ^ 1074)
        \<and> 50 \<le> height_cm \<and> height_cm \<le> 300 \<and> 20 \<le> weight_kg \<and> weight_kg \<le> 400 \<longrightarrow>
        (\<exists>sq bmi. py_pow2 pow_fl (fl64 (height_cm / 100)) = Inr sq
           \<and> calculate_bmi_fl pow_fl weight_kg height_cm = Inr (Some (Finite bmi))
           \<and> bmi = fl64 (py_round (fl64 (weight_kg / sq)) 2)
           \<and> (\<exists>k::int. bmi = fl64 (of_int k / 100))
           \<and> \<bar>bmi - weight_kg / (height_cm / 100) ^ 2\<bar> \<le> 1 / 200 + 1 / 10 ^ 8))
   \<and> calculate_bmi_fl pow_fl 70 0 = Inr None"
proof -
  have iff: "calculate_bmi_fl pow_fl weight_kg height_cm = Inr None \<longleftrightarrow> height_cm \<le> 0"
    by (simp add: calculate_bmi_fl_def Let_def split: sum.split)
  have zero: "calculate_bmi_fl pow_fl 70 0 = Inr None"
    by (simp add: calculate_bmi_fl_def)
  have d: "\<exists>k::int. fl64 (py_round x 2) = fl64 (of_int k / 100)" for x
  proof -
    from py_round_decimal [of x 2] obtain k :: int where "py_round x 2 = of_int k / 10 ^ 2" ..
    then have "py_round x 2 = of_int k / 100" by simp
    then have "fl64 (py_round x 2) = fl64 (of_int k / 100)" by (rule arg_cong)
    then show ?thesis ..
  qed
  have rng: "\<exists>sq bmi. py_pow2 pow_fl (fl64 (height_cm / 100)) = Inr sq
           \<and> calculate_bmi_fl pow_fl weight_kg height_cm = Inr (Some (Finite bmi))
           \<and> bmi = fl64 (py_round (fl64 (weight_kg / sq)) 2)
           \<and> (\<exists>k::int. bmi = fl64 (of_int k / 100))
           \<and> \<bar>bmi - weight_kg / (height_cm / 100) ^ 2\<bar> \<le> 1 / 200 + 1 / 10 ^ 8"
    if "\<forall>y. \<bar>pow_fl y - y\<bar> \<le> \<bar>y\<bar> / 2 ^ 52 + 1 / 2 ^ 1074"
      "50 \<le> height_cm" "height_cm \<le> 300" "20 \<le> weight_kg" "weight_kg \<le> 400"
  proof -
    from calculate_bmi_fl_in_range [OF that]
    obtain sq b where b: "py_pow2 pow_fl (fl64 (height_cm / 100)) = Inr sq"
      "calculate_bmi_fl pow_fl weight_kg height_cm = Inr (Some (Finite b))"
      "b = fl64 (py_round (fl64 (weight_kg / sq)) 2)"
      "\<bar>b - weight_kg / (height_cm / 100) ^ 2\<bar> \<le> 1 / 200 + 1 / 10 ^ 8" by blast
    have "\<exists>k::int. b = fl64 (of_int k / 100)" unfolding b(3) by (rule d)
    with b show ?thesis by blast
  qed
  from iff zero rng show ?thesis by blast
qed


theorem calculate_bmi_fl_invalid_iff_witness:
  "(\<forall>y. \<bar>fl64 y - y\<bar> \<le> \<bar>y\<bar> / 2 ^ 52 + 1 / 2 ^ 1074)
   \<and> (50 :: real) \<le> 170 \<and> (170 :: real) \<le> 300 \<and> (20 :: real) \<le> 70 \<and> (70 :: real) \<le> 400
   \<and> calculate_bmi_fl fl64 70 170 = Inr (Some (Finite (fl64 24.22)))
   \<and> calculate_bmi_fl fl64 70 (- 5) = Inr None"
proof -
  have u: "\<forall>y. \<bar>fl64 y - y\<bar> \<le> \<bar>y\<bar> / 2 ^ 52 + 1 / 2 ^ 1074"
    using fl64_one_ulp by blast
  with calculate_bmi_fl_invalid_iff [of fl64 70 170]
  obtain sq bmi where b: "py_pow2 fl64 (fl64 (170 / 100)) = Inr sq"
    "calculate_bmi_fl fl64 70 170 = Inr (Some (Finite bmi))"
    "bmi = fl64 (py_round (fl64 (70 / sq)) 2)" by auto
  from py_pow2_Inr [OF b(1)] have "sq = fl64 (fl64 (170 / 100) * fl64 (170 / 100))" .
  with b(3) have "bmi = fl64 (py_round (fl64 (70 / fl64 (fl64 (170 / 100) * fl64 (170 / 100)))) 2)"
    by simp
  also have "\<dots> = fl64 24.22" by code_simp
  finally have v: "calculate_bmi_fl fl64 70 170 = Inr (Some (Finite (fl64 24.22)))"
    using b(2) by simp
  have n: "calculate_bmi_fl fl64 70 (- 5) = Inr None"
    using calculate_bmi_fl_invalid_iff [of fl64 70 "- 5"] by simp
  from u v n show ?thesis by simp
qed

text \<open>
  A height so small that its square underflows to zero makes the division raise, and a
  height so large that its square overflows makes \<^verbatim>\<open>**\<close> raise.
\<close>

lemma calculate_bmi_fl_underflow:
  "calculate_bmi_fl fl64 70 (1 / 2 ^ 600) = Inl ZeroDivisionError"
proof -
  define x :: real where "x = 1 / 2 ^ 600 / 100"
  define e :: real where "e = 1 / 2 ^ 600"
  define hm where "hm = fl64 x"
  have "\<bar>x\<bar> \<le> e" "1 / 2 ^ 1075 \<le> e" "0 \<le> e" unfolding x_def e_def by simp_all
  with fl64_abs_le [of x] have hb: "\<bar>hm\<bar> \<le> 3 * e" unfolding hm_def by linarith
  have "\<bar>hm * hm\<bar> = \<bar>hm\<bar> * \<bar>hm\<bar>" by (simp add: abs_mult)
  also have "\<dots> \<le> (3 * e) * (3 * e)" using hb by (intro mult_mono) simp_all
  also have "\<dots> < 1 / 2 ^ 1075" unfolding e_def by simp
  finally have "fl64 (hm * hm) = 0" by (rule fl64_underflow)
  then have "py_pow2 fl64 hm = Inr 0" by (simp add: py_pow2_def max_float_def)
  then show ?thesis
    by (simp add: calculate_bmi_fl_def Let_def hm_def x_def)
qed

lemma calculate_bmi_fl_overflow:
  "calculate_bmi_fl fl64 70 (2 ^ 600) = Inl OverflowError"
proof -
  define x :: real where "x = 2 ^ 600 / 100"
  define B :: real where "B = 2 ^ 592"
  define hm where "hm = fl64 x"
  define y where "y = hm * hm"
  have B: "1 \<le> B" "B \<le> x / 2" "1 \<le> x" unfolding x_def B_def by simp_all
  with fl64_ge_half [of x] have hb: "B \<le> hm" unfolding hm_def by linarith
  have "B * B \<le> hm * hm" using hb B(1) by (intro mult_mono) simp_all
  moreover have "1 \<le> B * B" "2 * max_float < B * B / 2" unfolding B_def max_float_def by simp_all
  ultimately have yb: "1 \<le> y" "2 * max_float < y / 2" unfolding y_def by linarith+
  from fl64_ge_half [OF yb(1)] yb(2) max_float_big have "max_float < fl64 y" by linarith
  then have "max_float < \<bar>fl64 y\<bar>" by linarith
  then have "py_pow2 fl64 hm = Inl OverflowError" by (simp add: py_pow2_def y_def)
  then show ?thesis
    by (simp add: calculate_bmi_fl_def Let_def hm_def x_def)
qed

text \<open>The value of a call in which nothing overflows or underflows, for evaluation.\<close>

lemma calculate_bmi_fl_value:
  assumes "0 < height_cm"
    and "sq = fl64 (fl64 (height_cm / 100) * fl64 (height_cm / 100))"
    and "sq \<noteq> 0" "\<bar>sq\<bar> \<le> 2000" "\<bar>fl64 (weight_kg / sq)\<bar> \<le> 2000"
  shows "calculate_bmi_fl fl64 weight_kg height_cm
           = Inr (Some (Finite (fl64 (py_round (fl64 (weight_kg / sq)) 2))))"
proof -
  from assms(4) max_float_big have "\<not> max_float < \<bar>sq\<bar>" by linarith
  then have "py_pow2 fl64 (fl64 (height_cm / 100)) = Inr sq"
    by (simp add: py_pow2_def Let_def assms(2))
  with assms(1,3) ieee_finite [OF assms(5)] show ?thesis
    by (simp add: calculate_bmi_fl_def Let_def round_float_def)
qed

text \<open>
  Claim C2 as stated fails: at the positive heights \<open>2 ^ -600\<close> and \<open>2 ^ 600\<close> the call
  raises and returns no number; and at (56, 160), where the exact quotient 21.875 rounds
  to 21.88, the float quotient lies below the tie and the result is 21.87 (with a
  correctly rounded \<^verbatim>\<open>pow\<close>).
\<close>

theorem calculate_bmi_fl_counterexample:
  "0 < (1 / 2 ^ 600 :: real)
   \<and> calculate_bmi_fl fl64 70 (1 / 2 ^ 600) = Inl ZeroDivisionError
   \<and> 0 < (2 ^ 600 :: real)
   \<and> calculate_bmi_fl fl64 70 (2 ^ 600) = Inl OverflowError
   \<and> calculate_bmi_fl fl64 56 160 = Inr (Some (Finite (fl64 21.87)))
   \<and> 56 / (160 / 100) ^ 2 = (21.875 :: real)
   \<and> py_round (56 / (160 / 100) ^ 2) 2 = 21.88
   \<and> fl64 21.87 \<noteq> fl64 21.88"
proof -
  define sq :: real where "sq = fl64 (fl64 (160 / 100) * fl64 (160 / 100))"
  have "sq \<noteq> 0" "\<bar>sq\<bar> \<le> 2000" "\<bar>fl64 (56 / sq)\<bar> \<le> 2000"
    unfolding sq_def by code_simp+
  from calculate_bmi_fl_value [OF _ sq_def this]
  have "calculate_bmi_fl fl64 56 160 = Inr (Some (Finite (fl64 (py_round (fl64 (56 / sq)) 2))))"
    by simp
  moreover have "fl64 (py_round (fl64 (56 / sq)) 2) = fl64 21.87"
    unfolding sq_def by code_simp
  ultimately have t: "calculate_bmi_fl fl64 56 160 = Inr (Some (Finite (fl64 21.87)))"
    by simp
  have e: "56 / (160 / 100) ^ 2 = (21.875 :: real)" by (simp add: power2_eq_square)
  have r: "py_round (56 / (160 / 100) ^ 2) 2 = 21.88" by code_simp
  have n: "fl64 21.87 \<noteq> fl64 21.88" by code_simp
  from t e r n calculate_bmi_fl_underflow calculate_bmi_fl_overflow show ?thesis by simp
qed

text \<open>
  In the same domain the binary64 result and the result in exact arithmetic differ by at
  most one unit of the second decimal, up to the same rounding error.
\<close>

lemma calculate_bmi_fl_near_exact:
  assumes "\<forall>y. \<bar>pow_fl y - y\<bar> \<le> \<bar>y\<bar> / 2 ^ 52 + 1 / 2 ^ 1074"
    and "50 \<le> height_cm" "height_cm \<le> 300" "20 \<le> weight_kg" "weight_kg \<le> 400"
  shows "\<exists>b e. calculate_bmi_fl pow_fl weight_kg height_cm = Inr (Some (Finite b))
           \<and> calculate_bmi weight_kg height_cm = Some e
           \<and> \<bar>b - e\<bar> \<le> 1 / 100 + 1 / 10 ^ 8"
proof -
  define Q where "Q = weight_kg / (height_cm / 100) ^ 2"
  from calculate_bmi_fl_in_range [OF assms]
  obtain b where b: "calculate_bmi_fl pow_fl weight_kg height_cm = Inr (Some (Finite b))"
    "\<bar>b - Q\<bar> \<le> 1 / 200 + 1 / 10 ^ 8" unfolding Q_def by blast
  have e: "calculate_bmi weight_kg height_cm = Some (py_round Q 2)"
    using assms(2) by (simp add: calculate_bmi_def Let_def Q_def)
  have "\<bar>py_round Q 2 - Q\<bar> \<le> 1 / 200" using py_round_error [of Q 2] by simp
  with b(2) have "\<bar>b - py_round Q 2\<bar> \<le> 1 / 100 + 1 / 10 ^ 8" by linarith
  with b(1) e show ?thesis by blast
qed

text \<open>
  Claim C3. \<open>bmi_category\<close> maps \<open>None\<close> to \<^verbatim>\<open>"Invalid"\<close> and a number to the label of
  the half-open interval that holds it: below 18.5 \<^verbatim>\<open>"Underweight"\<close>, from 18.5 and below
  25 \<^verbatim>\<open>"Normal"\<close>, from 25 and below 30 \<^verbatim>\<open>"Overweight"\<close>, from 30 \<^verbatim>\<open>"Obese"\<close>; the five
  boundary examples of the specification follow.
\<close>

theorem bmi_category_buckets:
  "bmi_category None = ''Invalid''
   \<and> (bmi < 18.5 \<longrightarrow> bmi_category (Some bmi) = ''Underweight'')
   \<and> (18.5 \<le> bmi \<and> bmi < 25 \<longrightarrow> bmi_category (Some bmi) = ''Normal'')
   \<and> (25 \<le> bmi \<and> bmi < 30 \<longrightarrow> bmi_category (Some bmi) = ''Overweight'')
   \<and> (30 \<le> bmi \<longrightarrow> bmi_category (Some bmi) = ''Obese'')
   \<and> bmi_category (Some 18.5) = ''Normal''
   \<and> bmi_category (Some 18.49) = ''Underweight''
   \<and> bmi_category (Some 25) = ''Overweight''
   \<and> bmi_category (Some 29.99) = ''Overweight''
   \<and> bmi_category (Some 30) = ''Obese''"
  by (simp add: bmi_category_def)

theorem bmi_category_buckets_witness:
  "(17 :: real) < 18.5 \<and> bmi_category (Some 17) = ''Underweight''
   \<and> (18.5 :: real) \<le> 22 \<and> (22 :: real) < 25 \<and> bmi_category (Some 22) = ''Normal''
   \<and> (25 :: real) \<le> 27 \<and> (27 :: real) < 30 \<and> bmi_category (Some 27) = ''Overweight''
   \<and> (30 :: real) \<le> 41 \<and> bmi_category (Some 41) = ''Obese''"
  using bmi_category_buckets [of 17] bmi_category_buckets [of 22]
    bmi_category_buckets [of 27] bmi_category_buckets [of 41]
  by simp




subsection \<open>Body fat\<close>

text \<open>
  Claim C4. \<open>body_fat_navy\<close> always returns: no exception leaves it. Whenever the body
  of its \<^verbatim>\<open>try\<close> block raises, the result is \<open>None\<close>: for a logarithm argument that is
  not positive (waist at most neck for a male gender, waist plus hip at most neck
  otherwise, a height that is not positive) and for a divisor that is zero. In particular
  the result at (male, waist 30, neck 37, height 170) is \<open>None\<close>.
\<close>

theorem body_fat_navy_never_raises:
  "(\<exists>r. body_fat_navy gender waist_cm neck_cm height_cm hip_cm = Inr r)
   \<and> (\<forall>e. body_fat_navy_try gender waist_cm neck_cm height_cm hip_cm = Inl e \<longrightarrow>
          body_fat_navy gender waist_cm neck_cm height_cm hip_cm = Inr None)
   \<and> (is_male gender \<and> waist_cm \<le> neck_cm \<longrightarrow>
          body_fat_navy gender waist_cm neck_cm height_cm hip_cm = Inr None)
   \<and> (\<not> is_male gender \<and> hip_cm = Some hip \<and> waist_cm + hip \<le> neck_cm \<longrightarrow>
          body_fat_navy gender waist_cm neck_cm height_cm hip_cm = Inr None)
   \<and> (height_cm \<le> 0 \<longrightarrow>
          body_fat_navy gender waist_cm neck_cm height_cm hip_cm = Inr None)
   \<and> (is_male gender \<and> neck_cm < waist_cm \<and> 0 < height_cm
        \<and> 1.0324 - 0.19077 * log 10 (waist_cm - neck_cm) + 0.15456 * log 10 height_cm = 0 \<longrightarrow>
          body_fat_navy gender waist_cm neck_cm height_cm hip_cm = Inr None)
   \<and> (\<not> is_male gender \<and> hip_cm = Some hip \<and> neck_cm < waist_cm + hip \<and> 0 < height_cm
        \<and> 1.29579 - 0.35004 * log 10 (waist_cm + hip - neck_cm) + 0.22100 * log 10 height_cm = 0 \<longrightarrow>
          body_fat_navy gender waist_cm neck_cm height_cm hip_cm = Inr None)
   \<and> body_fat_navy ''male'' 30 37 170 hip_cm = Inr None"
proof -
  have m: "is_male ''male''" by code_simp
  have ex: "body_fat_navy ''male'' 30 37 170 hip_cm = Inr None"
    by (simp add: body_fat_navy_def body_fat_navy_try_def m log10_def)
  have ret: "\<exists>r. body_fat_navy gender waist_cm neck_cm height_cm hip_cm = Inr r"
    by (simp add: body_fat_navy_def split: sum.split)
  have exc: "\<forall>e. body_fat_navy_try gender waist_cm neck_cm height_cm hip_cm = Inl e \<longrightarrow>
          body_fat_navy gender waist_cm neck_cm height_cm hip_cm = Inr None"
    by (simp add: body_fat_navy_def)
  have rest: "(is_male gender \<and> waist_cm \<le> neck_cm \<longrightarrow>
          body_fat_navy gender waist_cm neck_cm height_cm hip_cm = Inr None)
   \<and> (\<not> is_male gender \<and> hip_cm = Some hip \<and> waist_cm + hip \<le> neck_cm \<longrightarrow>
          body_fat_navy gender waist_cm neck_cm height_cm hip_cm = Inr None)
   \<and> (height_cm \<le> 0 \<longrightarrow>
          body_fat_navy gender waist_cm neck_cm height_cm hip_cm = Inr None)
   \<and> (is_male gender \<and> neck_cm < waist_cm \<and> 0 < height_cm
        \<and> 1.0324 - 0.19077 * log 10 (waist_cm - neck_cm) + 0.15456 * log 10 height_cm = 0 \<longrightarrow>
          body_fat_navy gender waist_cm neck_cm height_cm hip_cm = Inr None)
   \<and> (\<not> is_male gender \<and> hip_cm = Some hip \<and> neck_cm < waist_cm + hip \<and> 0 < height_cm
        \<and> 1.29579 - 0.35004 * log 10 (waist_cm + hip - neck_cm) + 0.22100 * log 10 height_cm = 0 \<longrightarrow>
          body_fat_navy gender waist_cm neck_cm height_cm hip_cm = Inr None)"
    by (auto simp add: body_fat_navy_def body_fat_navy_try_def log10_def py_div_def Let_def
          split: option.split)
  from ex ret exc rest show ?thesis by blast
qed

text \<open>
  A divisor that is zero, over the reals: with height 1 and neck 0 the male divisor
  vanishes at waist \<open>10 powr (1.0324 / 0.19077)\<close>.
\<close>

lemma body_fat_navy_zero_division:
  "body_fat_navy_try ''m'' (10 powr (103240 / 19077)) 0 1 None = Inl ZeroDivisionError"
proof -
  have m: "is_male ''m''" by code_simp
  show ?thesis
    by (simp add: body_fat_navy_try_def m log10_def py_div_def)
qed

theorem body_fat_navy_never_raises_witness:
  "is_male ''male'' \<and> (30::real) \<le> 37
   \<and> body_fat_navy_try ''male'' 30 37 170 None = Inl ValueError
   \<and> body_fat_navy ''male'' 30 37 170 None = Inr None
   \<and> \<not> is_male ''female'' \<and> (40 + 60 :: real) \<le> 100
   \<and> body_fat_navy ''female'' 40 100 170 (Some 60) = Inr None
   \<and> (0::real) \<le> 0 \<and> body_fat_navy ''female'' 80 37 0 (Some 95) = Inr None
   \<and> body_fat_navy_try ''m'' (10 powr (103240 / 19077)) 0 1 None = Inl ZeroDivisionError
   \<and> body_fat_navy ''m'' (10 powr (103240 / 19077)) 0 1 None = Inr None"
proof -
  have m: "is_male ''male''" by code_simp
  have f: "\<not> is_male ''female''" by code_simp
  have t: "body_fat_navy_try ''male'' 30 37 170 None = Inl ValueError"
    by (simp add: body_fat_navy_try_def m log10_def)
  note z = body_fat_navy_zero_division
  from m f t z body_fat_navy_never_raises [of "''male''" 30 37 170 None]
    body_fat_navy_never_raises [of "''female''" 40 100 170 "Some 60" 60]
    body_fat_navy_never_raises [of "''female''" 80 37 0 "Some 95"]
    body_fat_navy_never_raises [of "''m''" "10 powr (103240 / 19077)" 0 1 None]
  show ?thesis by simp
qed

text \<open>
  Claim C10. For a gender that lowers to \<^verbatim>\<open>"male"\<close> or \<^verbatim>\<open>"m"\<close>, the result of
  \<open>body_fat_navy\<close> does not depend on the hip argument: two calls that differ only there,
  an absent hip included, return the same value.
\<close>

theorem body_fat_navy_male_ignores_hip:
  "is_male gender \<Longrightarrow>
     body_fat_navy gender waist_cm neck_cm height_cm hip_cm
       = body_fat_navy gender waist_cm neck_cm height_cm hip_cm'"
  by (simp add: body_fat_navy_def body_fat_navy_try_def)

text \<open>At (Male, waist 80, neck 37, height 170) the common value is a number.\<close>

lemma body_fat_navy_male_example:
  "\<exists>bf. body_fat_navy ''Male'' 80 37 170 hip_cm = Inr (Some bf)"
proof -
  have m: "is_male ''Male''" by code_simp
  have "(43::real) < 10 powr 2" by simp
  then have a: "log 10 43 < 2" by (simp add: log_less_iff)
  have "10 powr 2 < (170::real)" by simp
  then have b: "2 < log 10 170" by (simp add: less_log_iff)
  from a b have "0 < 1.0324 - 0.19077 * log 10 43 + 0.15456 * log 10 170"
    by simp
  then show ?thesis
    by (simp add: body_fat_navy_def body_fat_navy_try_def m log10_def py_div_def Let_def)
qed

theorem body_fat_navy_male_ignores_hip_witness:
  "is_male ''Male''
   \<and> body_fat_navy ''Male'' 80 37 170 None = body_fat_navy ''Male'' 80 37 170 (Some 95)
   \<and> (\<exists>bf. body_fat_navy ''Male'' 80 37 170 None = Inr (Some bf))"
proof -
  have m: "is_male ''Male''" by code_simp
  from m body_fat_navy_male_ignores_hip [OF m, of 80 37 170 None "Some 95"]
    body_fat_navy_male_example [of None]
  show ?thesis by simp
qed

text \<open>
  Claim C8, as the code has it. \<open>bf_interpretation\<close> returns the label
  \<^verbatim>\<open>"Invalid data for estimation"\<close> when the body-fat value is \<open>None\<close>, whatever the
  gender and the age.
\<close>

theorem bf_interpretation_absent:
  "bf_interpretation gender age None = ''Invalid data for estimation''"
  by (simp add: bf_interpretation_def)

text \<open>Claim C8 as stated fails: the label for an absent value is not \<^verbatim>\<open>"Invalid"\<close>.\<close>

theorem bf_interpretation_absent_counterexample:
  "bf_interpretation ''male'' 0 None \<noteq> ''Invalid''"
  by (simp add: bf_interpretation_def)

subsection \<open>Ideal weight range\<close>

lemma product_near:
  fixes m c c0 :: real
  assumes m: "\<bar>m\<bar> \<le> 1000" and c: "\<bar>c - c0\<bar> \<le> 1 / 100000000000000"
    and c0: "0 \<le> c0" "c0 \<le> 3 / 2"
  shows "\<exists>b. round_float (ieee (m * c)) 1 = Finite b \<and> b = fl64 (py_round (fl64 (m * c)) 1)
           \<and> \<bar>b - c0 * m\<bar> \<le> 1 / 20 + 1 / 10 ^ 9"
proof -
  from c c0 have cb: "\<bar>c\<bar> \<le> 199 / 100" by linarith
  have "\<bar>m * c\<bar> = \<bar>m\<bar> * \<bar>c\<bar>" by (simp add: abs_mult)
  also have "\<dots> \<le> 1000 * (199 / 100)" using m cb by (intro mult_mono) simp_all
  also have "\<dots> = 1990" by simp
  finally have "\<bar>m * c\<bar> \<le> 1990" .
  from round_float_ieee_near [OF this, of 1]
  obtain b where b: "round_float (ieee (m * c)) 1 = Finite b"
    "b = fl64 (py_round (fl64 (m * c)) 1)"
    "\<bar>b - m * c\<bar> \<le> 1 / (2 * 10 ^ 1) + 2 / 1000000000000" by blast
  have "1 / (2 * 10 ^ 1) + 2 / 1000000000000 \<le> (1 / 20 + 1 / 500000000000 :: real)"
    by simp
  with b(3) have b': "\<bar>b - m * c\<bar> \<le> 1 / 20 + 1 / 500000000000"
    by (rule order_trans)
  have "m * c - c0 * m = m * (c - c0)" by (simp add: algebra_simps)
  then have "\<bar>m * c - c0 * m\<bar> = \<bar>m\<bar> * \<bar>c - c0\<bar>" by (simp add: abs_mult)
  also have "\<dots> \<le> 1000 * (1 / 100000000000000)" using m c by (intro mult_mono) simp_all
  also have "\<dots> = 1 / 100000000000" by simp
  finally have d: "\<bar>m * c - c0 * m\<bar> \<le> 1 / 100000000000" .
  from b' d have "\<bar>b - c0 * m\<bar> \<le> 1 / 20 + 1 / 1000000000" by linarith
  then have "\<bar>b - c0 * m\<bar> \<le> 1 / 20 + 1 / 10 ^ 9" by simp
  with b(1,2) show ?thesis by blast
qed

lemma literal_near:
  "\<bar>fl64 0.95 - 95 / 100\<bar> \<le> 1 / 100000000000000"
  "\<bar>fl64 1.05 - 105 / 100\<bar> \<le> 1 / 100000000000000"
  using fl64_near_16 [of "0.95"] fl64_near_16 [of "1.05"] by simp_all

lemma min_max_abs:
  fixes a b :: real
  shows "\<bar>a\<bar> \<le> m \<Longrightarrow> \<bar>b\<bar> \<le> m \<Longrightarrow> \<bar>min a b\<bar> \<le> m \<and> \<bar>max a b\<bar> \<le> m"
  by (simp add: min_def max_def)


text \<open>
  Claim C5, as the code has it. The range is \<^verbatim>\<open>round(min(dev, ham) * 0.95, 1)\<close> and
  \<^verbatim>\<open>round(max(dev, ham) * 1.05, 1)\<close> in binary64. For estimates of magnitude up to
  1000 each bound is the float nearest to a multiple of 0.1 and lies within 0.05, up to
  a rounding error below \<open>10 ^ -9\<close>, of \<open>0.95 * min dev ham\<close> and \<open>1.05 * max dev ham\<close>.
  For the estimates 65.0 and 63.0 the range is (59.8, 68.2).
\<close>

theorem ideal_weight_range_rounded:
  "(\<bar>dev\<bar> \<le> 1000 \<and> \<bar>ham\<bar> \<le> 1000 \<longrightarrow>
      (\<exists>lo hi. ideal_weight_range dev ham = (Finite lo, Finite hi)
         \<and> lo = fl64 (py_round (fl64 (min dev ham * fl64 0.95)) 1)
         \<and> hi = fl64 (py_round (fl64 (max dev ham * fl64 1.05)) 1)
         \<and> (\<exists>k::int. lo = fl64 (of_int k / 10))
         \<and> (\<exists>k::int. hi = fl64 (of_int k / 10))
         \<and> \<bar>lo - 0.95 * min dev ham\<bar> \<le> 1 / 20 + 1 / 10 ^ 9
         \<and> \<bar>hi - 1.05 * max dev ham\<bar> \<le> 1 / 20 + 1 / 10 ^ 9))
   \<and> ideal_weight_range 65 63 = (Finite (fl64 59.8), Finite (fl64 68.2))"
proof -
  have ex: "ideal_weight_range 65 63 = (Finite (fl64 59.8), Finite (fl64 68.2))"
  proof -
    have "\<bar>fl64 (63 * fl64 0.95)\<bar> \<le> 2000" "\<bar>fl64 (65 * fl64 1.05)\<bar> \<le> 2000"
      by code_simp+
    moreover have "fl64 (py_round (fl64 (63 * fl64 0.95)) 1) = fl64 59.8"
      "fl64 (py_round (fl64 (65 * fl64 1.05)) 1) = fl64 68.2"
      by code_simp+
    ultimately show ?thesis
      by (simp add: ideal_weight_range_def Let_def ieee_finite round_float_def)
  qed
  have d: "\<exists>k::int. fl64 (py_round x 1) = fl64 (of_int k / 10)" for x
  proof -
    from py_round_decimal [of x 1] obtain k :: int where "py_round x 1 = of_int k / 10 ^ 1" ..
    then have "fl64 (py_round x 1) = fl64 (of_int k / 10)" by (simp only: power_one_right)
    then show ?thesis ..
  qed
  have gen: "\<exists>lo hi. ideal_weight_range dev ham = (Finite lo, Finite hi)
         \<and> lo = fl64 (py_round (fl64 (min dev ham * fl64 0.95)) 1)
         \<and> hi = fl64 (py_round (fl64 (max dev ham * fl64 1.05)) 1)
         \<and> (\<exists>k::int. lo = fl64 (of_int k / 10))
         \<and> (\<exists>k::int. hi = fl64 (of_int k / 10))
         \<and> \<bar>lo - 0.95 * min dev ham\<bar> \<le> 1 / 20 + 1 / 10 ^ 9
         \<and> \<bar>hi - 1.05 * max dev ham\<bar> \<le> 1 / 20 + 1 / 10 ^ 9"
    if b: "\<bar>dev\<bar> \<le> 1000" "\<bar>ham\<bar> \<le> 1000"
  proof -
    from min_max_abs [OF b] have mn: "\<bar>min dev ham\<bar> \<le> 1000" and mx: "\<bar>max dev ham\<bar> \<le> 1000"
      by simp_all
    from product_near [OF mn literal_near(1)]
    obtain lo where lo: "round_float (ieee (min dev ham * fl64 0.95)) 1 = Finite lo"
      "lo = fl64 (py_round (fl64 (min dev ham * fl64 0.95)) 1)"
      "\<bar>lo - 95 / 100 * min dev ham\<bar> \<le> 1 / 20 + 1 / 10 ^ 9" by auto
    from product_near [OF mx literal_near(2)]
    obtain hi where hi: "round_float (ieee (max dev ham * fl64 1.05)) 1 = Finite hi"
      "hi = fl64 (py_round (fl64 (max dev ham * fl64 1.05)) 1)"
      "\<bar>hi - 105 / 100 * max dev ham\<bar> \<le> 1 / 20 + 1 / 10 ^ 9" by auto
    have "ideal_weight_range dev ham = (Finite lo, Finite hi)"
      by (simp only: ideal_weight_range_def Let_def lo(1) hi(1))
    moreover have "\<exists>k::int. lo = fl64 (of_int k / 10)" unfolding lo(2) by (rule d)
    moreover have "\<exists>k::int. hi = fl64 (of_int k / 10)" unfolding hi(2) by (rule d)
    moreover from lo(3) have "\<bar>lo - 0.95 * min dev ham\<bar> \<le> 1 / 20 + 1 / 10 ^ 9" by simp
    moreover from hi(3) have "\<bar>hi - 1.05 * max dev ham\<bar> \<le> 1 / 20 + 1 / 10 ^ 9" by simp
    ultimately show ?thesis using lo(2) hi(2) by blast
  qed
  from gen ex show ?thesis by blast
qed

theorem ideal_weight_range_rounded_witness:
  "\<bar>fl64 50.8\<bar> \<le> 1000 \<and> \<bar>49 :: real\<bar> \<le> 1000
   \<and> fl64 (py_round (fl64 (min (fl64 50.8) 49 * fl64 0.95)) 1) = fl64 46.5
   \<and> fl64 (py_round (fl64 (max (fl64 50.8) 49 * fl64 1.05)) 1) = fl64 53.3
   \<and> ideal_weight_range (fl64 50.8) 49 = (Finite (fl64 46.5), Finite (fl64 53.3))"
proof -
  have a: "\<bar>fl64 50.8\<bar> \<le> 1000" by code_simp
  have lo: "fl64 (py_round (fl64 (min (fl64 50.8) 49 * fl64 0.95)) 1) = fl64 46.5"
    by code_simp
  have hi: "fl64 (py_round (fl64 (max (fl64 50.8) 49 * fl64 1.05)) 1) = fl64 53.3"
    by code_simp
  from a ideal_weight_range_rounded [of "fl64 50.8" 49]
  have "ideal_weight_range (fl64 50.8) 49
          = (Finite (fl64 (py_round (fl64 (min (fl64 50.8) 49 * fl64 0.95)) 1)),
             Finite (fl64 (py_round (fl64 (max (fl64 50.8) 49 * fl64 1.05)) 1)))"
    by auto
  with a lo hi show ?thesis by simp
qed

text \<open>
  Claim C5 as stated fails: (59.85, 68.25) are the bounds before rounding, not the
  result, which is (59.8, 68.2).
\<close>

theorem ideal_weight_range_counterexample:
  "ideal_weight_range 65 63 = (Finite (fl64 59.8), Finite (fl64 68.2))
   \<and> fl64 59.8 \<noteq> 59.85 \<and> fl64 59.8 \<noteq> fl64 59.85
   \<and> fl64 68.2 \<noteq> 68.25 \<and> fl64 68.2 \<noteq> fl64 68.25"
proof -
  have "\<bar>fl64 (63 * fl64 0.95)\<bar> \<le> 2000" "\<bar>fl64 (65 * fl64 1.05)\<bar> \<le> 2000"
    by code_simp+
  moreover have "fl64 (py_round (fl64 (63 * fl64 0.95)) 1) = fl64 59.8"
    "fl64 (py_round (fl64 (65 * fl64 1.05)) 1) = fl64 68.2"
    by code_simp+
  ultimately have "ideal_weight_range 65 63 = (Finite (fl64 59.8), Finite (fl64 68.2))"
    by (simp add: ideal_weight_range_def Let_def ieee_finite round_float_def)
  moreover have "fl64 59.8 \<noteq> 59.85" "fl64 59.8 \<noteq> fl64 59.85"
    "fl64 68.2 \<noteq> 68.25" "fl64 68.2 \<noteq> fl64 68.25"
    by code_simp+
  ultimately show ?thesis by blast
qed

text \<open>Another pair that the tab produces (Male, 155.66 cm).\<close>

lemma ideal_weight_range_example:
  "ideal_weight_range 53 51.5 = (Finite (fl64 48.9), Finite (fl64 55.7))"
proof -
  have "\<bar>fl64 (51.5 * fl64 0.95)\<bar> \<le> 2000" "\<bar>fl64 (53 * fl64 1.05)\<bar> \<le> 2000"
    by code_simp+
  moreover have "fl64 (py_round (fl64 (51.5 * fl64 0.95)) 1) = fl64 48.9"
    "fl64 (py_round (fl64 (53 * fl64 1.05)) 1) = fl64 55.7"
    by code_simp+
  ultimately show ?thesis
    by (simp add: ideal_weight_range_def Let_def ieee_finite round_float_def)
qed

subsection \<open>Unit conversion\<close>

text \<open>
  Claim C7. For a height between 50 and 300 cm, converting to feet and inches and back
  gives a value within 0.01 of the height.
\<close>

theorem cm_feet_inches_roundtrip:
  "50 \<le> cm \<and> cm \<le> 300 \<Longrightarrow>
     (case cm_to_feet_inches cm of (feet, inches) \<Rightarrow>
        \<bar>feet_inches_to_cm feet inches - cm\<bar> \<le> 0.01)"
  by (simp add: cm_to_feet_inches_def feet_inches_to_cm_def Let_def)

theorem cm_feet_inches_roundtrip_witness:
  "(50::real) \<le> 170 \<and> (170::real) \<le> 300
   \<and> fst (cm_to_feet_inches 170) = 5
   \<and> \<bar>feet_inches_to_cm 5 (snd (cm_to_feet_inches 170)) - 170\<bar> \<le> 0.01"
proof -
  have f: "fst (cm_to_feet_inches 170) = 5" by code_simp
  have "case cm_to_feet_inches 170 of (feet, inches) \<Rightarrow>
        \<bar>feet_inches_to_cm feet inches - 170\<bar> \<le> 0.01"
    using cm_feet_inches_roundtrip [of 170] by simp
  then have "\<bar>feet_inches_to_cm (fst (cm_to_feet_inches 170))
                 (snd (cm_to_feet_inches 170)) - 170\<bar> \<le> 0.01"
    by (simp add: case_prod_beta)
  with f show ?thesis by simp
qed

text \<open>
  The round trip in rounded arithmetic. Let every operation have a relative error of at
  most \<open>u\<close>, as binary64 has with \<open>u = 2 ^ -53\<close> in this range, and let \<open>c\<close> be 2.54 up
  to that error. Then for a height between 50 and 300 cm the round trip is within 0.01
  of the height, for every \<open>u\<close> up to one millionth.
\<close>

lemma cm_feet_inches_fl_exact:
  "cm_to_feet_inches_fl (\<lambda>x. x) 2.54 cm = cm_to_feet_inches cm"
  "feet_inches_to_cm_fl (\<lambda>x. x) 2.54 feet inches = feet_inches_to_cm feet inches"
  by (simp_all add: cm_to_feet_inches_fl_def cm_to_feet_inches_def
        feet_inches_to_cm_fl_def feet_inches_to_cm_def)

lemma abs_diff_boundD:
  fixes a b e :: real
  shows "\<bar>a - b\<bar> \<le> e \<Longrightarrow> b - e \<le> a \<and> a \<le> b + e"
  by linarith

lemma rounded_near:
  fixes fl :: "real \<Rightarrow> real"
  assumes "\<And>x. \<bar>fl x - x\<bar> \<le> u * \<bar>x\<bar>" "0 \<le> u" "\<bar>x\<bar> \<le> m"
  shows "x - u * m \<le> fl x \<and> fl x \<le> x + u * m"
proof -
  have "u * \<bar>x\<bar> \<le> u * m" using assms(2,3) by (intro mult_left_mono)
  with assms(1) [of x] show ?thesis by linarith
qed

lemma cm_feet_inches_fl_roundtrip:
  assumes fl: "\<And>x. \<bar>fl x - x\<bar> \<le> u * \<bar>x\<bar>"
    and u: "0 \<le> u" "u \<le> 1 / 10 ^ 6"
    and c: "\<bar>c - 2.54\<bar> \<le> 2.54 * u"
    and cm: "50 \<le> cm" "cm \<le> 300"
  shows "case cm_to_feet_inches_fl fl c cm of (feet, inches) \<Rightarrow>
           \<bar>feet_inches_to_cm_fl fl c feet inches - cm\<bar> \<le> 0.01"
proof -
  define q where "q = cm / c"
  define I where "I = fl q"
  define f where "f = \<lfloor>I / 12\<rfloor>"
  define D where "D = I - of_int (f * 12)"
  define R where "R = fl D"
  define S where "S = of_int (f * 12) + R"
  define T where "T = fl S"
  define P where "P = T * c"
  define out where "out = fl P"
  note near = rounded_near [of fl u, OF fl u(1)]
  from abs_diff_boundD [OF c] u have c1: "253 / 100 \<le> c" "c \<le> 255 / 100"
    by simp_all
  then have cpos: "0 < c" by simp
  have q0: "0 \<le> q" using cm cpos by (simp add: q_def)
  have qc: "q * c = cm" using cpos by (simp add: q_def)
  have "q * (253 / 100) \<le> q * c" using c1 q0 by (intro mult_left_mono)
  with qc cm have q1: "q \<le> 119" by simp
  from q0 q1 have "\<bar>q\<bar> \<le> 119" by simp
  from near [OF this] have Iq: "q - u * 119 \<le> I" "I \<le> q + u * 119"
    by (simp_all add: I_def)
  from q0 have "\<bar>q\<bar> \<le> q" by simp
  from near [OF this] have "q - u * q \<le> I" by (simp add: I_def)
  moreover have "u * q \<le> 1 * q" using u q0 by (intro mult_right_mono) simp_all
  ultimately have I0: "0 \<le> I" by simp
  have I1: "I \<le> 120" using Iq q1 u by simp
  have "of_int f \<le> I / 12" "I / 12 < of_int f + 1"
    unfolding f_def by linarith+
  then have D0: "0 \<le> D" "D < 12" by (simp_all add: D_def)
  then have "\<bar>D\<bar> \<le> 12" by simp
  from near [OF this] have RD: "D - u * 12 \<le> R" "R \<le> D + u * 12"
    by (simp_all add: R_def)
  have SI: "I - u * 12 \<le> S" "S \<le> I + u * 12"
    using RD by (simp_all add: S_def D_def)
  have "\<bar>S\<bar> \<le> 121" using SI I0 I1 u by simp
  from near [OF this] have TS: "S - u * 121 \<le> T" "T \<le> S + u * 121"
    by (simp_all add: T_def)
  have Tq: "\<bar>T - q\<bar> \<le> u * 252" using TS SI Iq by simp
  have "P - cm = (T - q) * c" using qc by (simp add: P_def algebra_simps)
  then have "\<bar>P - cm\<bar> = \<bar>T - q\<bar> * c" using cpos by (simp add: abs_mult)
  also have "\<dots> \<le> (u * 252) * (255 / 100)"
    using Tq c1 u cpos by (intro mult_mono) simp_all
  finally have Pcm: "\<bar>P - cm\<bar> \<le> u * 643" using u(1) by simp
  from abs_diff_boundD [OF Pcm] have Pb: "cm - u * 643 \<le> P" "P \<le> cm + u * 643"
    by simp_all
  from Pb cm u have "\<bar>P\<bar> \<le> 301" by simp
  from near [OF this] have oP: "P - u * 301 \<le> out" "out \<le> P + u * 301"
    by (simp_all add: out_def)
  from Pb oP have "\<bar>out - cm\<bar> \<le> u * 944" by linarith
  also have "\<dots> \<le> 1 / 100" using u by simp
  finally have "\<bar>out - cm\<bar> \<le> 1 / 100" .
  then show ?thesis
    by (simp add: cm_to_feet_inches_fl_def feet_inches_to_cm_fl_def Let_def
          out_def P_def T_def S_def R_def D_def f_def I_def q_def)
qed

subsection \<open>Tip carousel\<close>

lemma get_tip_idx_prev_click: "get_tip_idx (prev_click st) = prev_tip (get_tip_idx st)"
  by (simp add: prev_click_def get_tip_idx_def)

lemma get_tip_idx_next_click: "get_tip_idx (next_click st) = next_tip (get_tip_idx st)"
  by (simp add: next_click_def get_tip_idx_def)

lemma next_tip_funpow: "(next_tip ^^ n) idx = idx + int n"
  by (induction n) (simp_all add: next_tip_def)

lemma prev_tip_funpow_no_clamp:
  "\<forall>k<n. \<not> hits_clamp ((prev_tip ^^ k) idx) \<Longrightarrow> (prev_tip ^^ n) idx = idx - int n"
proof (induction n)
  case 0
  then show ?case by simp
next
  case (Suc n)
  then have ih: "(prev_tip ^^ n) idx = idx - int n" by simp
  from Suc.prems have "\<not> hits_clamp ((prev_tip ^^ n) idx)" by simp
  with ih have nn: "0 \<le> idx - int n - 1" by (simp add: hits_clamp_def)
  have "(prev_tip ^^ Suc n) idx = prev_tip (idx - int n)"
    by (simp add: ih)
  also from nn have "\<dots> = idx - int (Suc n)"
    unfolding prev_tip_def by simp
  finally show ?case .
qed

lemma prev_tip_funpow_nonneg:
  "int n \<le> idx \<Longrightarrow> (prev_tip ^^ n) idx = idx - int n"
proof (induction n)
  case 0
  then show ?case by simp
next
  case (Suc n)
  then have ih: "(prev_tip ^^ n) idx = idx - int n" by simp
  have "(prev_tip ^^ Suc n) idx = prev_tip (idx - int n)"
    by (simp add: ih)
  also from Suc.prems have "\<dots> = idx - int (Suc n)"
    unfolding prev_tip_def by simp
  finally show ?case .
qed

text \<open>
  From an index that is not negative, which is every index the two handlers can reach
  from the default 0, \<open>n\<close> Next clicks followed by \<open>n\<close> Prev clicks lead back.
\<close>

lemma next_prev_roundtrip_nonneg:
  "0 \<le> idx \<Longrightarrow> (prev_tip ^^ n) ((next_tip ^^ n) idx) = idx"
  by (simp add: next_tip_funpow prev_tip_funpow_nonneg)

text \<open>Across the clamp the way back is lost: from -5, one Next and one Prev give 0.\<close>

lemma next_prev_clamp_crossed:
  "hits_clamp ((next_tip ^^ 1) (-5)) \<and> (prev_tip ^^ 1) ((next_tip ^^ 1) (-5)) = 0"
  by (simp add: hits_clamp_def prev_tip_def next_tip_def)

text \<open>
  Claim C9. The Prev handler stores \<open>max 0 (idx - 1)\<close>: from 0 it stays at 0 and the
  stored index is never negative. \<open>n\<close> applications of \<open>next_tip\<close> followed by \<open>n\<close>
  applications of \<open>prev_tip\<close> return the original index whenever none of the \<open>n\<close>
  applications of \<open>prev_tip\<close> hits the zero clamp.
\<close>

theorem prev_tip_clamp:
  "prev_tip idx = max 0 (idx - 1)
   \<and> prev_tip 0 = 0
   \<and> 0 \<le> prev_tip idx
   \<and> get_tip_idx (prev_click st) = max 0 (get_tip_idx st - 1)
   \<and> 0 \<le> get_tip_idx (prev_click st)
   \<and> ((\<forall>k<n. \<not> hits_clamp ((prev_tip ^^ k) ((next_tip ^^ n) idx))) \<longrightarrow>
        (prev_tip ^^ n) ((next_tip ^^ n) idx) = idx)"
proof -
  have "(prev_tip ^^ n) ((next_tip ^^ n) idx) = idx"
    if "\<forall>k<n. \<not> hits_clamp ((prev_tip ^^ k) ((next_tip ^^ n) idx))"
    using prev_tip_funpow_no_clamp [OF that] by (simp add: next_tip_funpow)
  then show ?thesis
    by (simp add: get_tip_idx_prev_click) (simp add: prev_tip_def)
qed

theorem prev_tip_clamp_witness:
  "\<not> hits_clamp ((prev_tip ^^ 0) ((next_tip ^^ 3) 0))
   \<and> \<not> hits_clamp ((prev_tip ^^ 1) ((next_tip ^^ 3) 0))
   \<and> \<not> hits_clamp ((prev_tip ^^ 2) ((next_tip ^^ 3) 0))
   \<and> (prev_tip ^^ 3) ((next_tip ^^ 3) 0) = 0
   \<and> (next_tip ^^ 3) 0 = 3
   \<and> get_tip_idx (prev_click Map.empty) = 0"
proof -
  have a: "\<forall>k<3. \<not> hits_clamp ((prev_tip ^^ k) ((next_tip ^^ 3) 0))"
    by (simp add: next_tip_funpow prev_tip_funpow_nonneg hits_clamp_def)
  have b: "(next_tip ^^ 3) 0 = 3" by (simp add: next_tip_funpow)
  have c: "get_tip_idx Map.empty = 0" by (simp add: get_tip_idx_def)
  have d: "\<not> hits_clamp ((prev_tip ^^ 0) ((next_tip ^^ 3) 0))"
    using a [rule_format, of 0] by simp
  have e: "\<not> hits_clamp ((prev_tip ^^ 1) ((next_tip ^^ 3) 0))"
    using a [rule_format, of 1] by simp
  have f: "\<not> hits_clamp ((prev_tip ^^ 2) ((next_tip ^^ 3) 0))"
    using a [rule_format, of 2] by simp
  from a c prev_tip_clamp [of 0 Map.empty 3]
  have "(prev_tip ^^ 3) ((next_tip ^^ 3) 0) = 0 \<and> get_tip_idx (prev_click Map.empty) = 0"
    by simp
  with b d e f show ?thesis by blast
qed

end
